theory Spec2Isabelle
  imports Main "HOL-Library.Sublist"
begin

section \<open>Data model\<close>

text \<open>
  The action polls the workflow runs of a repository and holds the current run back while
  an earlier run is still relevant. The records below carry the fields that \<^verbatim>\<open>src/wait.ts\<close>
  reads when it decides; fields that only appear in log lines (\<^verbatim>\<open>html_url\<close>,
  \<^verbatim>\<open>created_at\<close>) and the log lines themselves are left out. JavaScript numbers are
  modelled as mathematical integers, strings as lists of characters, and a value that may
  be \<^verbatim>\<open>undefined\<close> or \<^verbatim>\<open>null\<close> as an \<open>option\<close>.
\<close>

record run =
  run_id :: int
  run_status :: string
  run_conclusion :: "string option"
  run_display_title :: "string option"
  run_name :: "string option"

record job =
  job_id :: int
  job_name :: string
  job_status :: string

record step =
  step_name :: string
  step_status :: string

text \<open>
  The fields of \<^verbatim>\<open>Input\<close> that \<^verbatim>\<open>Waiter\<close> reads. The declaration of
  \<^verbatim>\<open>Input\<close> is not part of the sources at hand, so each field has the type its uses
  in \<^verbatim>\<open>wait.ts\<close> require: the two escape thresholds and the three names are tested for
  truthiness and may be absent; the initial wait is compared with \<open>0\<close> as a number.
\<close>

record input =
  runId :: int
  pollIntervalSeconds :: int
  initialWaitSeconds :: int
  continueAfterSeconds :: "int option"
  abortAfterSeconds :: "int option"
  queueName :: "string option"
  jobToWaitFor :: "string option"
  stepToWaitFor :: "string option"
  exponentialBackoffRetries :: bool

text \<open>
  What the platform answers during one tick: the three status subsets that
  \<^verbatim>\<open>OctokitGitHub.runs\<close> requests, the jobs of a run and the steps of a job.
  The requests are taken to succeed; a request that fails rejects the promise of
  \<^verbatim>\<open>wait\<close> before any decision is made and is not part of the model.
\<close>

record api =
  in_progress_runs :: "run list"
  queued_runs :: "run list"
  waiting_runs :: "run list"
  jobs :: "int \<Rightarrow> job list"
  steps :: "int \<Rightarrow> step list"

text \<open>\<^verbatim>\<open>github.ts\<close>, line 94: \<^verbatim>\<open>[inProgressResults, queuedResults, waitingResults].flat()\<close>.\<close>

definition runs :: "api \<Rightarrow> run list" where
  "runs a = concat [in_progress_runs a, queued_runs a, waiting_runs a]"

section \<open>Truthiness and substrings\<close>

text \<open>\<^verbatim>\<open>secondsSoFar || 0\<close>: an absent argument counts as zero.\<close>

definition or0 :: "int option \<Rightarrow> int" where
  "or0 secondsSoFar = (case secondsSoFar of None \<Rightarrow> 0 | Some n \<Rightarrow> n)"

text \<open>
  \<^verbatim>\<open>threshold && (secondsSoFar || 0) >= threshold\<close> (lines 41 and 47): the threshold is
  first tested for truthiness, so \<^verbatim>\<open>undefined\<close> and \<open>0\<close> both fail the test.
\<close>

definition exceeded :: "int option \<Rightarrow> int option \<Rightarrow> bool" where
  "exceeded threshold secondsSoFar =
     (case threshold of None \<Rightarrow> False | Some t \<Rightarrow> t \<noteq> 0 \<and> or0 secondsSoFar \<ge> t)"

text \<open>Truthiness of an optional string: \<^verbatim>\<open>undefined\<close> and the empty string are falsy.\<close>

definition truthy :: "string option \<Rightarrow> bool" where
  "truthy s = (case s of None \<Rightarrow> False | Some t \<Rightarrow> t \<noteq> [])"

text \<open>\<^verbatim>\<open>String.prototype.includes\<close>: does \<open>q\<close> occur in \<open>s\<close> as a contiguous run?\<close>

fun includes_str :: "string \<Rightarrow> string \<Rightarrow> bool" where
  "includes_str [] q = (q = [])"
| "includes_str (c # s) q = (prefix q (c # s) \<or> includes_str s q)"

text \<open>
  \<^verbatim>\<open>run.display_title?.includes(queueName) || run.name?.includes(queueName)\<close>
  (line 93); an absent title or name yields \<^verbatim>\<open>undefined\<close>, which is falsy.
\<close>

definition matchesQueue :: "string \<Rightarrow> run \<Rightarrow> bool" where
  "matchesQueue q r =
     ((case run_display_title r of None \<Rightarrow> False | Some t \<Rightarrow> includes_str t q) \<or>
      (case run_name r of None \<Rightarrow> False | Some n \<Rightarrow> includes_str n q))"

section \<open>Filtering and ordering the runs (lines 86 to 138)\<close>

text \<open>
  \<^verbatim>\<open>Array.prototype.sort\<close> with a comparator is a stable sort: \<open>x\<close> goes before
  \<open>y\<close> when the comparator is negative, and elements that compare equal keep their
  order. Insertion from the right does exactly that.
\<close>

fun insert_by :: "('a \<Rightarrow> 'a \<Rightarrow> int) \<Rightarrow> 'a \<Rightarrow> 'a list \<Rightarrow> 'a list" where
  "insert_by cmp x [] = [x]"
| "insert_by cmp x (y # ys) = (if cmp x y \<le> 0 then x # y # ys else y # insert_by cmp x ys)"

fun sort_by :: "('a \<Rightarrow> 'a \<Rightarrow> int) \<Rightarrow> 'a list \<Rightarrow> 'a list" where
  "sort_by cmp [] = []"
| "sort_by cmp (x # xs) = insert_by cmp x (sort_by cmp xs)"

definition previousRuns :: "input \<Rightarrow> run list \<Rightarrow> run list" where
  "previousRuns inp rs =
     (let filteredRuns =
            (if truthy (queueName inp)
             then (case queueName inp of
                     None \<Rightarrow> rs
                   | Some q \<Rightarrow> filter (matchesQueue q) rs)
             else rs);
          runsBeforeCurrent = filter (\<lambda>r. run_id r < runId inp) filteredRuns
      in sort_by (\<lambda>a b. run_id b - run_id a)
           (filter (\<lambda>r. \<not> (run_conclusion r = Some ''success'')) runsBeforeCurrent))"

section \<open>One tick of the waiter\<close>

text \<open>
  The names of the states are those of the state machine the waiter implements; each
  result of a tick is tagged with the branch of \<^verbatim>\<open>wait\<close> that produced it.
\<close>

datatype state_tag =
  Continued | Aborted | Proceeded | InitialDelay | WaitingFullRun | WaitingJob | WaitingStep

text \<open>
  The error of line 50, \<^verbatim>\<open>Aborted after waiting ${secondsSoFar} seconds\<close>. The
  message interpolates the argument as it was passed, not \<^verbatim>\<open>secondsSoFar || 0\<close>.
\<close>

datatype error = AbortedAfterWaiting "int option"

text \<open>
  How a tick ends: the promise resolves with a value (\<open>None\<close> is \<^verbatim>\<open>undefined\<close>, the
  value of a bare \<^verbatim>\<open>return;\<close>), it rejects with an error, or the waiter sleeps for a
  number of seconds and calls \<^verbatim>\<open>wait\<close> again with a new elapsed value.
\<close>

datatype action =
  Return "int option"
| Throw error
| SleepThenWait int int

record tick_result =
  state :: state_tag
  action :: action
  attempt_after :: nat
  writes :: "(string \<times> string) list"

text \<open>
  The block that occurs three times (lines 179 to 184, 198 to 203 and 33 with 217 to 221):
  the polling interval is the base interval, and with backoff it becomes
  \<^verbatim>\<open>pollIntervalSeconds * (2 * this.attempt || 1)\<close>, after which the attempt counter
  is incremented. The counter starts at \<open>0\<close> and is only ever incremented, so it is a
  natural number.
\<close>

definition nextInterval :: "input \<Rightarrow> nat \<Rightarrow> int \<times> nat" where
  "nextInterval inp attempt =
     (if exponentialBackoffRetries inp
      then (pollIntervalSeconds inp * (if 2 * int attempt \<noteq> 0 then 2 * int attempt else 1),
            attempt + 1)
      else (pollIntervalSeconds inp, attempt))"

text \<open>\<^verbatim>\<open>pollAndWait\<close> (lines 226 to 230).\<close>

definition pollAndWait :: "input \<Rightarrow> int option \<Rightarrow> int \<Rightarrow> action" where
  "pollAndWait inp secondsSoFar pollingInterval =
     (let intervalToUse =
            (if pollingInterval \<noteq> 0 then pollingInterval else pollIntervalSeconds inp)
      in SleepThenWait intervalToUse (or0 secondsSoFar + intervalToUse))"

text \<open>Lines 215 to 223: await the whole run.\<close>

definition awaitRun :: "input \<Rightarrow> nat \<Rightarrow> int option \<Rightarrow> tick_result" where
  "awaitRun inp attempt secondsSoFar =
     (case nextInterval inp attempt of
        (pollingInterval, attempt') \<Rightarrow>
          \<lparr>state = WaitingFullRun,
           action = pollAndWait inp secondsSoFar pollingInterval,
           attempt_after = attempt', writes = []\<rparr>)"

text \<open>Lines 196 to 212: the decision on the job that was looked up.\<close>

definition decideJob :: "input \<Rightarrow> nat \<Rightarrow> int option \<Rightarrow> job option \<Rightarrow> tick_result" where
  "decideJob inp attempt secondsSoFar found =
     (case found of
        Some j \<Rightarrow>
          if job_status j \<noteq> ''completed''
          then (case nextInterval inp attempt of
                  (pollingInterval, attempt') \<Rightarrow>
                    \<lparr>state = WaitingJob,
                     action = pollAndWait inp secondsSoFar pollingInterval,
                     attempt_after = attempt', writes = []\<rparr>)
          else \<lparr>state = Proceeded, action = Return None,
                attempt_after = attempt, writes = []\<rparr>
      | None \<Rightarrow> awaitRun inp attempt secondsSoFar)"

text \<open>Lines 173 to 194: the decision on the step, when a step is asked for and the job exists.\<close>

definition decideStep :: "input \<Rightarrow> api \<Rightarrow> nat \<Rightarrow> int option \<Rightarrow> job option \<Rightarrow> tick_result" where
  "decideStep inp a attempt secondsSoFar found =
     (case found of
        Some j \<Rightarrow>
          if truthy (stepToWaitFor inp)
          then (case find (\<lambda>s. Some (step_name s) = stepToWaitFor inp) (steps a (job_id j)) of
                  Some s \<Rightarrow>
                    if step_status s \<noteq> ''completed''
                    then (case nextInterval inp attempt of
                            (pollingInterval, attempt') \<Rightarrow>
                              \<lparr>state = WaitingStep,
                               action = pollAndWait inp secondsSoFar pollingInterval,
                               attempt_after = attempt', writes = []\<rparr>)
                    else \<lparr>state = Proceeded, action = Return None,
                          attempt_after = attempt, writes = []\<rparr>
                | None \<Rightarrow> decideJob inp attempt secondsSoFar found)
          else decideJob inp attempt secondsSoFar found
      | None \<Rightarrow> decideJob inp attempt secondsSoFar found)"

text \<open>
  The body of \<^verbatim>\<open>wait\<close> up to its recursive call. \<^verbatim>\<open>setOutput\<close> calls are collected
  in \<open>writes\<close>, in the order they are made.
\<close>

definition tick :: "input \<Rightarrow> api \<Rightarrow> nat \<Rightarrow> int option \<Rightarrow> tick_result" where
  "tick inp a attempt secondsSoFar =
     (if exceeded (continueAfterSeconds inp) secondsSoFar
      then \<lparr>state = Continued, action = Return (Some (or0 secondsSoFar)),
            attempt_after = attempt, writes = [(''force_continued'', ''1'')]\<rparr>
      else if exceeded (abortAfterSeconds inp) secondsSoFar
      then \<lparr>state = Aborted, action = Throw (AbortedAfterWaiting secondsSoFar),
            attempt_after = attempt, writes = [(''force_continued'', '''')]\<rparr>
      else
        (case previousRuns inp (runs a) of
           [] \<Rightarrow>
             if initialWaitSeconds inp > 0 \<and> or0 secondsSoFar < initialWaitSeconds inp
             then \<lparr>state = InitialDelay,
                   action = SleepThenWait (initialWaitSeconds inp)
                              (or0 secondsSoFar + initialWaitSeconds inp),
                   attempt_after = attempt, writes = [(''force_continued'', '''')]\<rparr>
             else \<lparr>state = Proceeded, action = Return None,
                   attempt_after = attempt, writes = [(''force_continued'', '''')]\<rparr>
         | previousRun # _ \<Rightarrow>
             if truthy (jobToWaitFor inp)
             then decideStep inp a attempt secondsSoFar
                    (find (\<lambda>j. Some (job_name j) = jobToWaitFor inp)
                       (jobs a (run_id previousRun)))
             else awaitRun inp attempt secondsSoFar))"

section \<open>The polling loop\<close>

text \<open>
  The state a chain of ticks carries: the attempt counter of the \<^verbatim>\<open>Waiter\<close>, every
  \<^verbatim>\<open>setOutput\<close> call made so far and every sleep taken so far, in seconds.
\<close>

record waiter =
  attempt :: nat
  outputs :: "(string \<times> string) list"
  slept :: "int list"

definition newWaiter :: waiter where
  "newWaiter = \<lparr>attempt = 0, outputs = [], slept = []\<rparr>"

text \<open>
  \<^verbatim>\<open>wait\<close> calls itself after every sleep and may do so forever. \<open>env k\<close> is what the
  platform answers at tick \<open>k\<close>; the fuel bounds the number of ticks, and \<open>None\<close> says
  that the chain has not ended within it.
\<close>

fun wait :: "input \<Rightarrow> (nat \<Rightarrow> api) \<Rightarrow> nat \<Rightarrow> nat \<Rightarrow> waiter \<Rightarrow> int option
               \<Rightarrow> ((error + int option) \<times> waiter) option" where
  "wait inp env 0 k w secondsSoFar = None"
| "wait inp env (Suc fuel) k w secondsSoFar =
     (let r = tick inp (env k) (attempt w) secondsSoFar;
          w' = w\<lparr>attempt := attempt_after r, outputs := outputs w @ writes r\<rparr>
      in case action r of
           Return v \<Rightarrow> Some (Inr v, w')
         | Throw e \<Rightarrow> Some (Inl e, w')
         | SleepThenWait seconds next \<Rightarrow>
             wait inp env fuel (Suc k) (w'\<lparr>slept := slept w' @ [seconds]\<rparr>) (Some next))"

section \<open>The specification's formulas\<close>

text \<open>
  The relevant previous runs as the specification words them: if a queue-name filter is
  configured, keep the runs whose display title or name contains it; keep the runs with an
  id below the current run's; drop the runs whose conclusion is \<open>success\<close>; sort by id,
  descending. A filter counts as configured when the queue name is present and not the
  empty string, which is the presence test of the source. Containment is \<^const>\<open>sublist\<close>
  and the sort is the library's \<^const>\<open>sort_key\<close> on the negated id.
\<close>

definition relevant_previous_runs_spec :: "input \<Rightarrow> run list \<Rightarrow> run list" where
  "relevant_previous_runs_spec inp rs =
     sort_key (\<lambda>r. - run_id r)
       (filter (\<lambda>r. run_conclusion r \<noteq> Some ''success'')
          (filter (\<lambda>r. run_id r < runId inp)
             (case queueName inp of
                None \<Rightarrow> rs
              | Some q \<Rightarrow>
                  if q = [] then rs
                  else filter (\<lambda>r. (case run_display_title r of
                                      None \<Rightarrow> False | Some t \<Rightarrow> sublist q t) \<or>
                                   (case run_name r of
                                      None \<Rightarrow> False | Some t \<Rightarrow> sublist q t)) rs)))"

text \<open>
  The next interval as the specification words it: the base interval if backoff is
  disabled, otherwise \<open>base \<times> max(1, 2 \<times> attempt)\<close>.
\<close>

definition interval_spec :: "input \<Rightarrow> nat \<Rightarrow> int" where
  "interval_spec inp k =
     (if exponentialBackoffRetries inp
      then pollIntervalSeconds inp * max 1 (2 * int k)
      else pollIntervalSeconds inp)"

section \<open>Auxiliary notions\<close>

text \<open>
  The result of a tick that keeps waiting, at the granularity \<open>tag\<close>: it sleeps for the
  specification's interval, calls \<^verbatim>\<open>wait\<close> with the elapsed seconds increased by that
  interval, increments the attempt counter when backoff is enabled, and writes no output.
\<close>

definition waiting :: "state_tag \<Rightarrow> input \<Rightarrow> nat \<Rightarrow> int option \<Rightarrow> tick_result" where
  "waiting tag inp n s =
     \<lparr>state = tag,
      action = SleepThenWait (interval_spec inp n) (or0 s + interval_spec inp n),
      attempt_after = (if exponentialBackoffRetries inp then n + 1 else n),
      writes = []\<rparr>"

text \<open>The same answer of the platform with the status of every listed run rewritten by \<open>f\<close>.\<close>

definition restatus :: "(string \<Rightarrow> string) \<Rightarrow> api \<Rightarrow> api" where
  "restatus f a =
     a\<lparr>in_progress_runs := map (run_status_update f) (in_progress_runs a),
       queued_runs := map (run_status_update f) (queued_runs a),
       waiting_runs := map (run_status_update f) (waiting_runs a)\<rparr>"

section \<open>Example configurations\<close>

text \<open>
  The current run is run 10 and the base interval is 15 seconds; no threshold, filter or
  target is set and backoff is off. Runs 3 and 7 are earlier runs that have not succeeded,
  run 5 is an earlier run that has, and run 12 was started after the current one.
\<close>

definition cfg :: input where
  "cfg = \<lparr>runId = 10, pollIntervalSeconds = 15, initialWaitSeconds = 0,
          continueAfterSeconds = None, abortAfterSeconds = None, queueName = None,
          jobToWaitFor = None, stepToWaitFor = None, exponentialBackoffRetries = False\<rparr>"

definition run3 :: run where
  "run3 = \<lparr>run_id = 3, run_status = ''completed'', run_conclusion = Some ''failure'',
           run_display_title = Some ''nightly deploy'', run_name = None\<rparr>"

definition run5 :: run where
  "run5 = \<lparr>run_id = 5, run_status = ''completed'', run_conclusion = Some ''success'',
           run_display_title = Some ''deploy'', run_name = Some ''deploy''\<rparr>"

definition run7 :: run where
  "run7 = \<lparr>run_id = 7, run_status = ''in_progress'', run_conclusion = None,
           run_display_title = Some ''deploy'', run_name = Some ''deploy''\<rparr>"

definition run12 :: run where
  "run12 = \<lparr>run_id = 12, run_status = ''queued'', run_conclusion = None,
            run_display_title = Some ''deploy'', run_name = Some ''deploy''\<rparr>"

definition api_none :: api where
  "api_none = \<lparr>in_progress_runs = [], queued_runs = [], waiting_runs = [],
               jobs = (\<lambda>_. []), steps = (\<lambda>_. [])\<rparr>"

definition api7 :: api where
  "api7 = api_none\<lparr>in_progress_runs := [run7]\<rparr>"

text \<open>Run 7 with a job \<open>build\<close> that is still running and has one step, \<open>compile\<close>.\<close>

definition job_build :: job where
  "job_build = \<lparr>job_id = 70, job_name = ''build'', job_status = ''in_progress''\<rparr>"

definition step_compile :: step where
  "step_compile = \<lparr>step_name = ''compile'', step_status = ''completed''\<rparr>"

definition api7_build :: api where
  "api7_build = api7\<lparr>jobs := (\<lambda>rid. if rid = 7 then [job_build] else []),
                      steps := (\<lambda>jid. if jid = 70 then [step_compile] else [])\<rparr>"

text \<open>Run 7 with a job \<open>build\<close> that has completed.\<close>

definition api7_done :: api where
  "api7_done = api7\<lparr>jobs := (\<lambda>rid. if rid = 7
                                then [\<lparr>job_id = 70, job_name = ''build'',
                                       job_status = ''completed''\<rparr>]
                                else [])\<rparr>"

text \<open>The definitions to unfold when the model is evaluated at a concrete input.\<close>

lemmas model_defs = tick_def exceeded_def or0_def previousRuns_def runs_def truthy_def
  matchesQueue_def awaitRun_def decideJob_def decideStep_def nextInterval_def pollAndWait_def
  cfg_def run3_def run5_def run7_def run12_def api_none_def api7_def
  job_build_def step_compile_def api7_build_def api7_done_def newWaiter_def

section \<open>The filter and the sort\<close>

lemma includes_str_sublist: "includes_str t q \<longleftrightarrow> sublist q t"
  by (induction t) (simp_all add: sublist_Cons_right)

lemma matchesQueue_spec:
  "matchesQueue q r \<longleftrightarrow>
     (case run_display_title r of None \<Rightarrow> False | Some t \<Rightarrow> sublist q t) \<or>
     (case run_name r of None \<Rightarrow> False | Some t \<Rightarrow> sublist q t)"
  by (simp add: matchesQueue_def includes_str_sublist cong: option.case_cong)

lemma insert_by_insort:
  "insert_by (\<lambda>a b. run_id b - run_id a) x ys = insort_key (\<lambda>r. - run_id r) x ys"
  by (induction ys) simp_all

lemma sort_by_sort_key:
  "sort_by (\<lambda>a b. run_id b - run_id a) xs = sort_key (\<lambda>r. - run_id r) xs"
  by (induction xs) (simp_all add: insert_by_insort)

lemma previousRuns_refines: "previousRuns inp rs = relevant_previous_runs_spec inp rs"
  by (simp add: previousRuns_def relevant_previous_runs_spec_def sort_by_sort_key truthy_def
        matchesQueue_spec [abs_def] split: option.split)

lemma previousRuns_set:
  "set (previousRuns inp rs) \<subseteq> {r \<in> set rs. run_id r < runId inp \<and> run_conclusion r \<noteq> Some ''success''}"
  by (auto simp: previousRuns_refines relevant_previous_runs_spec_def split: option.splits if_splits)

lemma previousRuns_descending:
  "sorted_wrt (\<lambda>x y. x \<ge> y) (map run_id (previousRuns inp rs))"
proof -
  have "sorted (map (\<lambda>r. - run_id r) (previousRuns inp rs))"
    by (simp add: previousRuns_refines relevant_previous_runs_spec_def)
  then show ?thesis
    by (simp add: sorted_wrt_map)
qed

lemma previousRuns_distinct:
  assumes "distinct (map run_id rs)"
  shows "distinct (map run_id (previousRuns inp rs))"
proof -
  have "distinct (map run_id (filter P rs))" for P
    using assms by (simp add: distinct_map_filter)
  then show ?thesis
    by (simp add: previousRuns_refines relevant_previous_runs_spec_def
          distinct_map split: option.split)
qed

lemma descending_distinct_strict:
  "sorted_wrt (\<lambda>x y. x \<ge> y) xs \<Longrightarrow> distinct xs \<Longrightarrow> sorted_wrt (\<lambda>x y. (x::int) > y) xs"
  by (induction xs) (auto simp: less_le)

lemma previousRuns_strictly_descending:
  "distinct (map run_id rs) \<Longrightarrow>
   sorted_wrt (\<lambda>x y. x > y) (map run_id (previousRuns inp rs))"
  by (rule descending_distinct_strict [OF previousRuns_descending previousRuns_distinct])

lemma insert_by_map:
  assumes "\<And>x y. cmp (g x) (g y) = cmp x y"
  shows "insert_by cmp (g x) (map g ys) = map g (insert_by cmp x ys)"
  by (induction ys) (simp_all add: assms)

lemma sort_by_map:
  assumes "\<And>x y. cmp (g x) (g y) = cmp x y"
  shows "sort_by cmp (map g xs) = map g (sort_by cmp xs)"
  by (induction xs) (simp_all add: insert_by_map [of cmp g, OF assms])

lemma previousRuns_restatus:
  "previousRuns inp (map (run_status_update f) rs)
     = map (run_status_update f) (previousRuns inp rs)"
  by (simp add: previousRuns_def filter_map o_def matchesQueue_def sort_by_map Let_def
        split: option.split)

section \<open>The branches of a tick\<close>

lemma exceeded_zero: "exceeded (Some 0) secondsSoFar = exceeded None secondsSoFar"
  by (simp add: exceeded_def)

lemma state_awaitRun: "state (awaitRun inp n s) = WaitingFullRun"
  by (simp add: awaitRun_def split: prod.split)

lemma state_decideJob:
  "state (decideJob inp n s found) =
     (case found of None \<Rightarrow> WaitingFullRun
      | Some j \<Rightarrow> if job_status j \<noteq> ''completed'' then WaitingJob else Proceeded)"
  by (simp add: decideJob_def state_awaitRun split: option.split prod.split)

lemma state_decideStep_cases:
  "state (decideStep inp a n s found) \<in> {WaitingStep, Proceeded, WaitingJob, WaitingFullRun}"
  by (simp add: decideStep_def state_decideJob split: option.split prod.split)

lemma thresholds_irrelevant:
  "previousRuns (inp\<lparr>continueAfterSeconds := x\<rparr>) rs = previousRuns inp rs"
  "previousRuns (inp\<lparr>abortAfterSeconds := x\<rparr>) rs = previousRuns inp rs"
  "awaitRun (inp\<lparr>continueAfterSeconds := x\<rparr>) n s = awaitRun inp n s"
  "awaitRun (inp\<lparr>abortAfterSeconds := x\<rparr>) n s = awaitRun inp n s"
  "decideJob (inp\<lparr>continueAfterSeconds := x\<rparr>) n s found = decideJob inp n s found"
  "decideJob (inp\<lparr>abortAfterSeconds := x\<rparr>) n s found = decideJob inp n s found"
  "decideStep (inp\<lparr>continueAfterSeconds := x\<rparr>) a n s found = decideStep inp a n s found"
  "decideStep (inp\<lparr>abortAfterSeconds := x\<rparr>) a n s found = decideStep inp a n s found"
  by (simp_all add: previousRuns_def awaitRun_def decideJob_def decideStep_def
        nextInterval_def pollAndWait_def split: option.split)

lemma state_decideStep_not:
  "state (decideStep inp a n s found) \<noteq> Continued"
  "state (decideStep inp a n s found) \<noteq> Aborted"
  "state (decideStep inp a n s found) \<noteq> InitialDelay"
  using state_decideStep_cases [of inp a n s found] by auto

lemma tick_Continued:
  "exceeded (continueAfterSeconds inp) s \<Longrightarrow>
   tick inp a n s = \<lparr>state = Continued, action = Return (Some (or0 s)),
                     attempt_after = n, writes = [(''force_continued'', ''1'')]\<rparr>"
  by (simp add: tick_def)

lemma tick_Aborted:
  "\<not> exceeded (continueAfterSeconds inp) s \<Longrightarrow> exceeded (abortAfterSeconds inp) s \<Longrightarrow>
   tick inp a n s = \<lparr>state = Aborted, action = Throw (AbortedAfterWaiting s),
                     attempt_after = n, writes = [(''force_continued'', '''')]\<rparr>"
  by (simp add: tick_def)

lemma tick_empty:
  "\<not> exceeded (continueAfterSeconds inp) s \<Longrightarrow> \<not> exceeded (abortAfterSeconds inp) s \<Longrightarrow>
   previousRuns inp (runs a) = [] \<Longrightarrow>
   tick inp a n s =
     (if initialWaitSeconds inp > 0 \<and> or0 s < initialWaitSeconds inp
      then \<lparr>state = InitialDelay,
            action = SleepThenWait (initialWaitSeconds inp) (or0 s + initialWaitSeconds inp),
            attempt_after = n, writes = [(''force_continued'', '''')]\<rparr>
      else \<lparr>state = Proceeded, action = Return None,
            attempt_after = n, writes = [(''force_continued'', '''')]\<rparr>)"
  by (simp add: tick_def)

lemma tick_nonempty:
  "\<not> exceeded (continueAfterSeconds inp) s \<Longrightarrow> \<not> exceeded (abortAfterSeconds inp) s \<Longrightarrow>
   previousRuns inp (runs a) = previousRun # rest \<Longrightarrow>
   tick inp a n s =
     (if truthy (jobToWaitFor inp)
      then decideStep inp a n s
             (find (\<lambda>j. Some (job_name j) = jobToWaitFor inp) (jobs a (run_id previousRun)))
      else awaitRun inp n s)"
  by (simp add: tick_def)

lemma state_tick_Continued:
  "state (tick inp a n s) = Continued \<longleftrightarrow> exceeded (continueAfterSeconds inp) s"
proof (cases "exceeded (continueAfterSeconds inp) s")
  case True
  then show ?thesis by (simp add: tick_Continued)
next
  case no: False
  show ?thesis
  proof (cases "exceeded (abortAfterSeconds inp) s")
    case True
    with no show ?thesis by (simp add: tick_Aborted)
  next
    case False
    with no show ?thesis
      by (cases "previousRuns inp (runs a)")
         (simp_all add: tick_empty tick_nonempty state_awaitRun state_decideStep_not)
  qed
qed

lemma state_tick_Aborted:
  "state (tick inp a n s) = Aborted \<longleftrightarrow>
     \<not> exceeded (continueAfterSeconds inp) s \<and> exceeded (abortAfterSeconds inp) s"
proof (cases "exceeded (continueAfterSeconds inp) s")
  case True
  then show ?thesis by (simp add: tick_Continued)
next
  case no: False
  show ?thesis
  proof (cases "exceeded (abortAfterSeconds inp) s")
    case True
    with no show ?thesis by (simp add: tick_Aborted)
  next
    case False
    with no show ?thesis
      by (cases "previousRuns inp (runs a)")
         (simp_all add: tick_empty tick_nonempty state_awaitRun state_decideStep_not)
  qed
qed

lemma tick_threshold_zero:
  "tick (inp\<lparr>continueAfterSeconds := Some 0\<rparr>) a n s
     = tick (inp\<lparr>continueAfterSeconds := None\<rparr>) a n s"
  "tick (inp\<lparr>abortAfterSeconds := Some 0\<rparr>) a n s
     = tick (inp\<lparr>abortAfterSeconds := None\<rparr>) a n s"
  by (simp_all add: tick_def exceeded_zero thresholds_irrelevant split: list.split)

lemma poll_result:
  "(case nextInterval inp n of
      (pollingInterval, attempt') \<Rightarrow>
        \<lparr>state = tag, action = pollAndWait inp s pollingInterval,
         attempt_after = attempt', writes = []\<rparr>) = waiting tag inp n s"
  by (simp add: nextInterval_def pollAndWait_def waiting_def interval_spec_def max_def Let_def)

lemma awaitRun_eq: "awaitRun inp n s = waiting WaitingFullRun inp n s"
  by (simp only: awaitRun_def poll_result)

lemma decideJob_eq:
  "decideJob inp n s found =
     (case found of
        None \<Rightarrow> waiting WaitingFullRun inp n s
      | Some j \<Rightarrow>
          if job_status j \<noteq> ''completed'' then waiting WaitingJob inp n s
          else \<lparr>state = Proceeded, action = Return None, attempt_after = n, writes = []\<rparr>)"
  by (simp only: decideJob_def poll_result awaitRun_eq)

lemma decideStep_eq:
  "decideStep inp a n s found =
     (case found of
        None \<Rightarrow> decideJob inp n s found
      | Some j \<Rightarrow>
          if truthy (stepToWaitFor inp)
          then (case find (\<lambda>s. Some (step_name s) = stepToWaitFor inp) (steps a (job_id j)) of
                  None \<Rightarrow> decideJob inp n s found
                | Some st \<Rightarrow>
                    if step_status st \<noteq> ''completed'' then waiting WaitingStep inp n s
                    else \<lparr>state = Proceeded, action = Return None,
                          attempt_after = n, writes = []\<rparr>)
          else decideJob inp n s found)"
  by (simp only: decideStep_def poll_result)

text \<open>Every tick has one of eight shapes.\<close>

lemma decideJob_shape:
  "decideJob inp n s found = waiting WaitingFullRun inp n s \<or>
   decideJob inp n s found = waiting WaitingJob inp n s \<or>
   decideJob inp n s found =
     \<lparr>state = Proceeded, action = Return None, attempt_after = n, writes = []\<rparr>"
  by (simp add: decideJob_eq split: option.split)

lemma decideStep_shape:
  "decideStep inp a n s found = waiting WaitingFullRun inp n s \<or>
   decideStep inp a n s found = waiting WaitingJob inp n s \<or>
   decideStep inp a n s found = waiting WaitingStep inp n s \<or>
   decideStep inp a n s found =
     \<lparr>state = Proceeded, action = Return None, attempt_after = n, writes = []\<rparr>"
  using decideJob_shape [of inp n s found]
  by (auto simp: decideStep_eq split: option.split)

lemma tick_shape:
  "tick inp a n s = \<lparr>state = Continued, action = Return (Some (or0 s)),
                     attempt_after = n, writes = [(''force_continued'', ''1'')]\<rparr> \<or>
   tick inp a n s = \<lparr>state = Aborted, action = Throw (AbortedAfterWaiting s),
                     attempt_after = n, writes = [(''force_continued'', '''')]\<rparr> \<or>
   tick inp a n s = \<lparr>state = InitialDelay,
                     action = SleepThenWait (initialWaitSeconds inp)
                                (or0 s + initialWaitSeconds inp),
                     attempt_after = n, writes = [(''force_continued'', '''')]\<rparr> \<or>
   tick inp a n s = \<lparr>state = Proceeded, action = Return None,
                     attempt_after = n, writes = [(''force_continued'', '''')]\<rparr> \<or>
   tick inp a n s = \<lparr>state = Proceeded, action = Return None,
                     attempt_after = n, writes = []\<rparr> \<or>
   tick inp a n s = waiting WaitingFullRun inp n s \<or>
   tick inp a n s = waiting WaitingJob inp n s \<or>
   tick inp a n s = waiting WaitingStep inp n s"
proof (cases "exceeded (continueAfterSeconds inp) s")
  case True
  then show ?thesis by (simp add: tick_Continued)
next
  case no: False
  show ?thesis
  proof (cases "exceeded (abortAfterSeconds inp) s")
    case True
    with no show ?thesis by (simp add: tick_Aborted)
  next
    case na: False
    show ?thesis
    proof (cases "previousRuns inp (runs a)")
      case Nil
      with no na show ?thesis by (simp add: tick_empty)
    next
      case (Cons r rest)
      show ?thesis
        using decideStep_shape [of inp a n s
            "find (\<lambda>j. Some (job_name j) = jobToWaitFor inp) (jobs a (run_id r))"]
        by (auto simp: tick_nonempty [OF no na Cons] awaitRun_eq)
    qed
  qed
qed

lemma waiting_simps:
  "state (waiting tag inp n s) = tag"
  "action (waiting tag inp n s) =
     SleepThenWait (interval_spec inp n) (or0 s + interval_spec inp n)"
  "attempt_after (waiting tag inp n s) = (if exponentialBackoffRetries inp then n + 1 else n)"
  "writes (waiting tag inp n s) = []"
  by (simp_all add: waiting_def)

text \<open>Every tick that proceeds resolves with \<^verbatim>\<open>undefined\<close>.\<close>

lemma proceeded_action:
  "state (tick inp a n s) = Proceeded \<Longrightarrow> action (tick inp a n s) = Return None"
  using tick_shape [of inp a n s] by (auto simp: waiting_simps)

lemma runs_restatus: "runs (restatus f a) = map (run_status_update f) (runs a)"
  by (simp add: runs_def restatus_def)

lemma decideStep_restatus: "decideStep inp (restatus f a) n s found = decideStep inp a n s found"
proof -
  have "steps (restatus f a) = steps a"
    by (simp add: restatus_def)
  then show ?thesis
    by (simp only: decideStep_eq)
qed

lemma tick_restatus: "tick inp (restatus f a) n s = tick inp a n s"
proof (cases "previousRuns inp (runs a)")
  case Nil
  then show ?thesis
    by (simp add: tick_def runs_restatus previousRuns_restatus)
next
  case (Cons r rest)
  moreover have "jobs (restatus f a) = jobs a"
    by (simp add: restatus_def)
  ultimately show ?thesis
    by (simp add: tick_def runs_restatus previousRuns_restatus decideStep_restatus)
qed


section \<open>The relevant previous runs\<close>

text \<open>
  C2, as amended. For every list of fetched runs, every configuration and every current
  run id, the list \<^verbatim>\<open>wait\<close> computes equals the specification's pipeline: the queue
  filter when a non-empty queue name is configured, then the runs with an id strictly below
  the current run's, without those concluded with \<open>success\<close>, sorted by id, descending.
  No run of the result has an id greater than or equal to the current run's. The ids of the
  result descend, and they descend strictly when the fetched runs have pairwise distinct
  ids.
\<close>

theorem relevant_previous_runs:
  "previousRuns inp rs = relevant_previous_runs_spec inp rs \<and>
   (\<forall>r \<in> set (previousRuns inp rs). run_id r < runId inp) \<and>
   sorted_wrt (\<lambda>x y. x \<ge> y) (map run_id (previousRuns inp rs)) \<and>
   (distinct (map run_id rs) \<longrightarrow>
      sorted_wrt (\<lambda>x y. x > y) (map run_id (previousRuns inp rs)))"
  using previousRuns_set [of inp rs]
  by (auto simp: previousRuns_refines [symmetric] previousRuns_descending
        previousRuns_strictly_descending)

theorem relevant_previous_runs_witness:
  "previousRuns (cfg\<lparr>queueName := Some ''deploy''\<rparr>) [run3, run12, run5, run7] = [run7, run3] \<and>
   relevant_previous_runs_spec (cfg\<lparr>queueName := Some ''deploy''\<rparr>) [run3, run12, run5, run7]
     = [run7, run3] \<and>
   distinct (map run_id [run3, run12, run5, run7]) \<and>
   sorted_wrt (\<lambda>x y. x > y)
     (map run_id (previousRuns (cfg\<lparr>queueName := Some ''deploy''\<rparr>) [run3, run12, run5, run7]))"
proof -
  let ?c = "cfg\<lparr>queueName := Some ''deploy''\<rparr>"
  let ?rs = "[run3, run12, run5, run7]"
  note t = relevant_previous_runs [of ?c ?rs]
  have p: "previousRuns ?c ?rs = [run7, run3]"
    by (simp add: model_defs)
  have d: "distinct (map run_id ?rs)"
    by (simp add: model_defs)
  from t p have s: "relevant_previous_runs_spec ?c ?rs = [run7, run3]"
    by metis
  from t d have
    "sorted_wrt (\<lambda>x y. x > y) (map run_id (previousRuns ?c ?rs))"
    by blast
  with p d s show ?thesis
    by blast
qed

text \<open>
  The three status subsets are fetched by separate requests, so a run that leaves the
  queue between two of them is listed twice, and the result is then not strictly
  descending.
\<close>

theorem duplicate_ids_counterexample:
  "\<not> sorted_wrt (\<lambda>x y. x > y)
       (map run_id (previousRuns cfg
          (runs (api_none\<lparr>in_progress_runs := [run7],
                           queued_runs := [run7\<lparr>run_status := ''queued''\<rparr>]\<rparr>))))"
  by (simp add: model_defs)

section \<open>The escape hatches\<close>

text \<open>
  C3, as amended. For every tick with elapsed seconds \<open>E\<close>: if a continue-after threshold
  \<open>C\<close> other than \<open>0\<close> is configured and \<open>E \<ge> C\<close>, the tick is \<open>Continued\<close>: the
  force-continued output is set to \<open>1\<close> and \<^verbatim>\<open>wait\<close> returns \<open>E\<close>, whatever the
  abort-after threshold and the outstanding runs are. Otherwise, if an abort-after
  threshold \<open>A\<close> other than \<open>0\<close> is configured and \<open>E \<ge> A\<close>, the tick is \<open>Aborted\<close>:
  \<^verbatim>\<open>wait\<close> throws the fatal error, and the error carries \<open>E\<close> whenever the tick was
  called with an elapsed value, which is the case whenever \<open>A\<close> is positive.
\<close>

theorem escape_hatches:
  "(continueAfterSeconds inp = Some c \<and> c \<noteq> 0 \<and> or0 s \<ge> c \<longrightarrow>
      state (tick inp (env k) (attempt w) s) = Continued \<and>
      action (tick inp (env k) (attempt w) s) = Return (Some (or0 s)) \<and>
      writes (tick inp (env k) (attempt w) s) = [(''force_continued'', ''1'')] \<and>
      wait inp env (Suc fuel) k w s
        = Some (Inr (Some (or0 s)), w\<lparr>outputs := outputs w @ [(''force_continued'', ''1'')]\<rparr>)) \<and>
   (\<not> (\<exists>c. continueAfterSeconds inp = Some c \<and> c \<noteq> 0 \<and> or0 s \<ge> c) \<and>
    abortAfterSeconds inp = Some t \<and> t \<noteq> 0 \<and> or0 s \<ge> t \<longrightarrow>
      state (tick inp (env k) (attempt w) s) = Aborted \<and>
      (\<exists>p. action (tick inp (env k) (attempt w) s) = Throw (AbortedAfterWaiting p) \<and>
           wait inp env (Suc fuel) k w s
             = Some (Inl (AbortedAfterWaiting p),
                     w\<lparr>outputs := outputs w @ [(''force_continued'', '''')]\<rparr>) \<and>
           (\<forall>e. s = Some e \<longrightarrow> p = Some (or0 s)) \<and>
           (0 < t \<longrightarrow> p = Some (or0 s))))"
proof -
  have c: "exceeded (continueAfterSeconds inp) s
             \<longleftrightarrow> (\<exists>c. continueAfterSeconds inp = Some c \<and> c \<noteq> 0 \<and> or0 s \<ge> c)"
    by (simp add: exceeded_def split: option.split)
  have t: "exceeded (abortAfterSeconds inp) s
             \<longleftrightarrow> (\<exists>t. abortAfterSeconds inp = Some t \<and> t \<noteq> 0 \<and> or0 s \<ge> t)"
    by (simp add: exceeded_def split: option.split)
  have p: "s = Some (or0 s)" if "0 < t" and "or0 s \<ge> t" for t
    using that by (cases s) (simp_all add: or0_def)
  show ?thesis
    using tick_Continued [of inp s "env k" "attempt w"] tick_Aborted [of inp s "env k" "attempt w"]
    unfolding c t by (auto simp: Let_def or0_def dest: p [unfolded or0_def])
qed

theorem escape_hatches_witness:
  "state (tick (cfg\<lparr>continueAfterSeconds := Some 30, abortAfterSeconds := Some 20\<rparr>)
            api7 0 (Some 35)) = Continued \<and>
   wait (cfg\<lparr>continueAfterSeconds := Some 30, abortAfterSeconds := Some 20\<rparr>)
     (\<lambda>k. api7) (Suc 0) 0 newWaiter (Some 35)
     = Some (Inr (Some 35), \<lparr>attempt = 0, outputs = [(''force_continued'', ''1'')], slept = []\<rparr>) \<and>
   state (tick (cfg\<lparr>abortAfterSeconds := Some 20\<rparr>) api7 0 (Some 25)) = Aborted \<and>
   wait (cfg\<lparr>abortAfterSeconds := Some 20\<rparr>) (\<lambda>k. api7) (Suc 0) 0 newWaiter (Some 25)
     = Some (Inl (AbortedAfterWaiting (Some 25)),
             \<lparr>attempt = 0, outputs = [(''force_continued'', '''')], slept = []\<rparr>)"
  using escape_hatches [where inp = "cfg\<lparr>continueAfterSeconds := Some 30,
                                          abortAfterSeconds := Some 20\<rparr>"
      and c = 30 and s = "Some 35" and env = "\<lambda>k. api7" and k = 0 and w = newWaiter and fuel = 0]
    escape_hatches [where inp = "cfg\<lparr>abortAfterSeconds := Some 20\<rparr>"
      and t = 20 and s = "Some 25" and env = "\<lambda>k. api7" and k = 0 and w = newWaiter and fuel = 0]
  by (simp add: model_defs)

text \<open>
  A continue-after threshold of \<open>0\<close> is configured and the elapsed seconds have reached
  it, yet the tick is not \<open>Continued\<close>: it waits for run 7 and writes no output.
\<close>

theorem zero_continue_after_counterexample:
  "continueAfterSeconds (cfg\<lparr>continueAfterSeconds := Some 0\<rparr>) = Some 0 \<and>
   or0 (Some 5) \<ge> 0 \<and>
   state (tick (cfg\<lparr>continueAfterSeconds := Some 0\<rparr>) api7 0 (Some 5)) = WaitingFullRun \<and>
   writes (tick (cfg\<lparr>continueAfterSeconds := Some 0\<rparr>) api7 0 (Some 5)) = []"
  by (simp add: model_defs)

section \<open>Thresholds configured as zero\<close>

text \<open>
  C9. A continue-after or abort-after threshold of \<open>0\<close> never fires: for every elapsed
  value the tick is the tick of the same configuration with that threshold absent, and
  it is neither \<open>Continued\<close> (respectively \<open>Aborted\<close>), because the threshold is tested
  for truthiness before it is compared.
\<close>

theorem zero_threshold_is_absent:
  "tick (inp\<lparr>continueAfterSeconds := Some 0\<rparr>) a n s
     = tick (inp\<lparr>continueAfterSeconds := None\<rparr>) a n s
   \<and> tick (inp\<lparr>abortAfterSeconds := Some 0\<rparr>) a n s
     = tick (inp\<lparr>abortAfterSeconds := None\<rparr>) a n s
   \<and> state (tick (inp\<lparr>continueAfterSeconds := Some 0\<rparr>) a n s) \<noteq> Continued
   \<and> state (tick (inp\<lparr>abortAfterSeconds := Some 0\<rparr>) a n s) \<noteq> Aborted"
  by (simp add: tick_threshold_zero state_tick_Continued state_tick_Aborted exceeded_def)

theorem zero_threshold_is_absent_witness:
  "tick (cfg\<lparr>continueAfterSeconds := Some 0\<rparr>) api7 0 (Some 35)
     = tick (cfg\<lparr>continueAfterSeconds := None\<rparr>) api7 0 (Some 35)
   \<and> tick (cfg\<lparr>abortAfterSeconds := Some 0\<rparr>) api7 0 (Some 35)
     = tick (cfg\<lparr>abortAfterSeconds := None\<rparr>) api7 0 (Some 35)
   \<and> state (tick (cfg\<lparr>continueAfterSeconds := Some 0\<rparr>) api7 0 (Some 35)) = WaitingFullRun
   \<and> state (tick (cfg\<lparr>abortAfterSeconds := Some 0\<rparr>) api7 0 (Some 35)) = WaitingFullRun"
  using zero_threshold_is_absent [of cfg api7 0 "Some 35"] by (simp add: model_defs)

section \<open>Waiting and the attempt counter\<close>

text \<open>
  C5, as amended. On any tick that keeps waiting (for the whole run, for the job or for
  the step), the interval is the base poll interval when backoff is disabled and
  \<open>base \<times> max(1, 2 \<times> attempt)\<close> when backoff is enabled; the attempt counter is
  incremented when backoff is enabled and left as it is when backoff is disabled; the
  waiter sleeps that interval and calls \<^verbatim>\<open>wait\<close> again with the elapsed seconds
  increased by exactly that interval.
\<close>

theorem waiting_interval:
  "state (tick inp (env k) (attempt w) s) \<in> {WaitingFullRun, WaitingJob, WaitingStep} \<Longrightarrow>
   action (tick inp (env k) (attempt w) s) =
     SleepThenWait (interval_spec inp (attempt w)) (or0 s + interval_spec inp (attempt w)) \<and>
   attempt_after (tick inp (env k) (attempt w) s) =
     (if exponentialBackoffRetries inp then attempt w + 1 else attempt w) \<and>
   wait inp env (Suc fuel) k w s =
     wait inp env fuel (Suc k)
       (w\<lparr>attempt := (if exponentialBackoffRetries inp then attempt w + 1 else attempt w),
          slept := slept w @ [interval_spec inp (attempt w)]\<rparr>)
       (Some (or0 s + interval_spec inp (attempt w)))"
  using tick_shape [of inp "env k" "attempt w" s]
  by (auto simp: waiting_simps Let_def)

theorem waiting_interval_witness:
  "state (tick (cfg\<lparr>exponentialBackoffRetries := True\<rparr>) api7
            (attempt (newWaiter\<lparr>attempt := 3\<rparr>)) (Some 45)) = WaitingFullRun \<and>
   interval_spec (cfg\<lparr>exponentialBackoffRetries := True\<rparr>) 3 = 90 \<and>
   action (tick (cfg\<lparr>exponentialBackoffRetries := True\<rparr>) api7
             (attempt (newWaiter\<lparr>attempt := 3\<rparr>)) (Some 45)) = SleepThenWait 90 135 \<and>
   attempt_after (tick (cfg\<lparr>exponentialBackoffRetries := True\<rparr>) api7
                    (attempt (newWaiter\<lparr>attempt := 3\<rparr>)) (Some 45)) = 4"
proof -
  let ?c = "cfg\<lparr>exponentialBackoffRetries := True\<rparr>"
  let ?w = "newWaiter\<lparr>attempt := 3\<rparr>"
  have st: "state (tick ?c api7 (attempt ?w) (Some 45)) = WaitingFullRun"
    by (simp add: model_defs)
  have i: "interval_spec ?c 3 = 90"
    by (simp add: interval_spec_def cfg_def)
  from st have "state (tick ?c ((\<lambda>k. api7) (0::nat)) (attempt ?w) (Some 45))
                  \<in> {WaitingFullRun, WaitingJob, WaitingStep}"
    by simp
  from waiting_interval [OF this, of 0] st i show ?thesis
    by (simp add: newWaiter_def or0_def)
qed

text \<open>
  With backoff disabled a tick that waits for the whole run leaves the attempt counter
  at \<open>0\<close>.
\<close>

theorem attempt_kept_without_backoff_counterexample:
  "state (tick cfg api7 0 None) = WaitingFullRun \<and>
   action (tick cfg api7 0 None) = SleepThenWait 15 15 \<and>
   attempt_after (tick cfg api7 0 None) \<noteq> 0 + 1"
  by (simp add: model_defs)

text \<open>
  C6. The attempt counter changes only on a tick that keeps waiting for a run, a job or a
  step, where it grows by one, and never on an initial-delay retry: for every tick that
  takes the initial-delay path, the counter after the tick equals the counter before it.
\<close>

theorem attempt_only_advances_when_waiting:
  "(state (tick inp a n s) = InitialDelay \<longrightarrow> attempt_after (tick inp a n s) = n) \<and>
   (attempt_after (tick inp a n s) \<noteq> n \<longrightarrow>
      state (tick inp a n s) \<in> {WaitingFullRun, WaitingJob, WaitingStep} \<and>
      attempt_after (tick inp a n s) = n + 1)"
  using tick_shape [of inp a n s] by (auto simp: waiting_simps split: if_splits)

theorem attempt_only_advances_when_waiting_witness:
  "state (tick (cfg\<lparr>initialWaitSeconds := 10\<rparr>) api_none 3 None) = InitialDelay \<and>
   attempt_after (tick (cfg\<lparr>initialWaitSeconds := 10\<rparr>) api_none 3 None) = 3 \<and>
   attempt_after (tick (cfg\<lparr>exponentialBackoffRetries := True\<rparr>) api7 3 None) = 4 \<and>
   state (tick (cfg\<lparr>exponentialBackoffRetries := True\<rparr>) api7 3 None) = WaitingFullRun"
  using attempt_only_advances_when_waiting [of "cfg\<lparr>initialWaitSeconds := 10\<rparr>" api_none 3 None]
    attempt_only_advances_when_waiting [of "cfg\<lparr>exponentialBackoffRetries := True\<rparr>" api7 3 None]
  by (simp add: model_defs)

section \<open>Fallbacks\<close>

text \<open>
  C7. For every tick that reaches a non-empty list of relevant previous runs, with head
  \<open>r\<close>: if a target job name is configured and no job of that exact name is among the
  jobs of \<open>r\<close>, the tick is the whole-run decision, \<open>WaitingFullRun\<close>; and if a target
  step name is configured, the job is found, and no step of that exact name is among the
  steps of the job, the tick is the job-level decision: \<open>WaitingJob\<close> when the job has not
  completed, \<open>Proceeded\<close> when it has.
\<close>

theorem target_miss_falls_back:
  assumes "\<not> exceeded (continueAfterSeconds inp) s"
    and "\<not> exceeded (abortAfterSeconds inp) s"
    and "previousRuns inp (runs a) = r # rest"
  shows "(jobToWaitFor inp = Some jn \<and> find (\<lambda>j. job_name j = jn) (jobs a (run_id r)) = None
            \<longrightarrow> tick inp a n s = awaitRun inp n s \<and> state (tick inp a n s) = WaitingFullRun) \<and>
         (jobToWaitFor inp = Some jn \<and> jn \<noteq> [] \<and>
          find (\<lambda>j. job_name j = jn) (jobs a (run_id r)) = Some j \<and>
          stepToWaitFor inp = Some sn \<and>
          find (\<lambda>st. step_name st = sn) (steps a (job_id j)) = None
            \<longrightarrow> tick inp a n s = decideJob inp n s (Some j) \<and>
                state (tick inp a n s) =
                  (if job_status j \<noteq> ''completed'' then WaitingJob else Proceeded))"
  by (auto simp: tick_nonempty [OF assms] decideStep_eq decideJob_eq awaitRun_eq truthy_def
        waiting_simps)

theorem target_miss_falls_back_witness:
  "state (tick (cfg\<lparr>jobToWaitFor := Some ''build''\<rparr>) api7 0 None) = WaitingFullRun \<and>
   action (tick (cfg\<lparr>jobToWaitFor := Some ''build''\<rparr>) api7 0 None) = SleepThenWait 15 15 \<and>
   state (tick (cfg\<lparr>jobToWaitFor := Some ''build'', stepToWaitFor := Some ''deploy''\<rparr>)
            api7_build 0 None) = WaitingJob"
proof -
  have 1: "\<not> exceeded (continueAfterSeconds (cfg\<lparr>jobToWaitFor := Some ''build''\<rparr>)) None"
    and 2: "\<not> exceeded (abortAfterSeconds (cfg\<lparr>jobToWaitFor := Some ''build''\<rparr>)) None"
    and 3: "previousRuns (cfg\<lparr>jobToWaitFor := Some ''build''\<rparr>) (runs api7) = run7 # []"
    by (simp_all add: model_defs)
  let ?c = "cfg\<lparr>jobToWaitFor := Some ''build'', stepToWaitFor := Some ''deploy''\<rparr>"
  have 4: "\<not> exceeded (continueAfterSeconds ?c) None"
    and 5: "\<not> exceeded (abortAfterSeconds ?c) None"
    and 6: "previousRuns ?c (runs api7_build) = run7 # []"
    by (simp_all add: model_defs)
  show ?thesis
    using target_miss_falls_back [OF 1 2 3, where jn = "''build''" and n = 0]
      target_miss_falls_back [OF 4 5 6, where jn = "''build''" and n = 0 and j = job_build
        and sn = "''deploy''"]
    by (simp add: model_defs)
qed

text \<open>
  C8. For every tick that reaches a non-empty list of relevant previous runs and for which
  no target job name is configured or the configured job is not among the jobs of the
  head run, the tick is \<open>WaitingFullRun\<close>: the waiter sleeps and calls \<^verbatim>\<open>wait\<close> again.
  The status listed for a run plays no part: a tick is the same whatever the status
  fields of the listed runs are.
\<close>

theorem run_level_wait_ignores_status:
  assumes "\<not> exceeded (continueAfterSeconds inp) s"
    and "\<not> exceeded (abortAfterSeconds inp) s"
    and "previousRuns inp (runs a) = r # rest"
    and "\<not> truthy (jobToWaitFor inp) \<or>
         find (\<lambda>j. Some (job_name j) = jobToWaitFor inp) (jobs a (run_id r)) = None"
  shows "state (tick inp a n s) = WaitingFullRun \<and>
         action (tick inp a n s) =
           SleepThenWait (interval_spec inp n) (or0 s + interval_spec inp n) \<and>
         tick inp (restatus f a) n s = tick inp a n s"
  using assms(4)
  by (auto simp: tick_nonempty [OF assms(1-3)] decideStep_eq decideJob_eq awaitRun_eq
        waiting_simps tick_restatus)

theorem run_level_wait_ignores_status_witness:
  "previousRuns cfg (runs (api_none\<lparr>in_progress_runs := [run3]\<rparr>)) = [run3] \<and>
   run_status run3 = ''completed'' \<and>
   state (tick cfg (api_none\<lparr>in_progress_runs := [run3]\<rparr>) 0 None) = WaitingFullRun \<and>
   action (tick cfg (api_none\<lparr>in_progress_runs := [run3]\<rparr>) 0 None) = SleepThenWait 15 15 \<and>
   state (tick (cfg\<lparr>jobToWaitFor := Some ''test''\<rparr>) api7_build 0 None) = WaitingFullRun"
proof -
  let ?a = "api_none\<lparr>in_progress_runs := [run3]\<rparr>"
  have 1: "\<not> exceeded (continueAfterSeconds cfg) None"
    and 2: "\<not> exceeded (abortAfterSeconds cfg) None"
    and 3: "previousRuns cfg (runs ?a) = run3 # []"
    and 4: "\<not> truthy (jobToWaitFor cfg) \<or>
            find (\<lambda>j. Some (job_name j) = jobToWaitFor cfg) (jobs ?a (run_id run3)) = None"
    by (simp_all add: model_defs)
  let ?c = "cfg\<lparr>jobToWaitFor := Some ''test''\<rparr>"
  have 5: "\<not> exceeded (continueAfterSeconds ?c) None"
    and 6: "\<not> exceeded (abortAfterSeconds ?c) None"
    and 7: "previousRuns ?c (runs api7_build) = run7 # []"
    and 8: "\<not> truthy (jobToWaitFor ?c) \<or>
            find (\<lambda>j. Some (job_name j) = jobToWaitFor ?c) (jobs api7_build (run_id run7)) = None"
    by (simp_all add: model_defs)
  show ?thesis
    using run_level_wait_ignores_status [OF 1 2 3 4, of 0 id]
      run_level_wait_ignores_status [OF 5 6 7 8, of 0 id] 3
    by (simp add: interval_spec_def or0_def cfg_def run3_def)
qed

section \<open>The force-continued output\<close>

text \<open>
  C10. A tick writes \<open>1\<close> to the force-continued output exactly when it is \<open>Continued\<close>,
  and every other write it makes to an output is the empty string to force-continued. The
  output is cleared on more paths than \<open>Proceeded\<close>: right before the \<open>Aborted\<close> error is
  thrown, and on every tick whose filtered list of runs is empty, the ticks that take the
  initial-delay retry included.
\<close>

theorem force_continued_writes:
  "((''force_continued'', ''1'') \<in> set (writes (tick inp a n s))
      \<longleftrightarrow> state (tick inp a n s) = Continued) \<and>
   (\<forall>kv \<in> set (writes (tick inp a n s)).
      fst kv = ''force_continued'' \<and>
      (snd kv \<noteq> '''' \<longrightarrow> snd kv = ''1'' \<and> state (tick inp a n s) = Continued)) \<and>
   (state (tick inp a n s) = Aborted \<longrightarrow>
      action (tick inp a n s) = Throw (AbortedAfterWaiting s) \<and>
      writes (tick inp a n s) = [(''force_continued'', '''')]) \<and>
   (\<not> exceeded (continueAfterSeconds inp) s \<and> \<not> exceeded (abortAfterSeconds inp) s \<and>
    previousRuns inp (runs a) = [] \<longrightarrow>
      writes (tick inp a n s) = [(''force_continued'', '''')]) \<and>
   (state (tick inp a n s) = InitialDelay \<longrightarrow>
      writes (tick inp a n s) = [(''force_continued'', '''')])"
  using tick_shape [of inp a n s] tick_empty [of inp s a n]
  by (auto simp: waiting_simps split: if_splits)

theorem force_continued_writes_witness:
  "state (tick (cfg\<lparr>continueAfterSeconds := Some 30\<rparr>) api7 0 (Some 35)) = Continued \<and>
   writes (tick (cfg\<lparr>continueAfterSeconds := Some 30\<rparr>) api7 0 (Some 35))
     = [(''force_continued'', ''1'')] \<and>
   state (tick (cfg\<lparr>abortAfterSeconds := Some 20\<rparr>) api7 0 (Some 25)) = Aborted \<and>
   writes (tick (cfg\<lparr>abortAfterSeconds := Some 20\<rparr>) api7 0 (Some 25))
     = [(''force_continued'', '''')] \<and>
   previousRuns (cfg\<lparr>initialWaitSeconds := 10\<rparr>) (runs api_none) = [] \<and>
   state (tick (cfg\<lparr>initialWaitSeconds := 10\<rparr>) api_none 0 None) = InitialDelay \<and>
   writes (tick (cfg\<lparr>initialWaitSeconds := 10\<rparr>) api_none 0 None)
     = [(''force_continued'', '''')]"
  using force_continued_writes [of "cfg\<lparr>continueAfterSeconds := Some 30\<rparr>" api7 0 "Some 35"]
    force_continued_writes [of "cfg\<lparr>abortAfterSeconds := Some 20\<rparr>" api7 0 "Some 25"]
    force_continued_writes [of "cfg\<lparr>initialWaitSeconds := 10\<rparr>" api_none 0 None]
  by (simp add: model_defs)

section \<open>Where the source departs from its own declarations\<close>

text \<open>
  C1. On every path that reaches \<open>Proceeded\<close>, \<^verbatim>\<open>wait\<close> is to clear the force-continued
  output and return the elapsed seconds accumulated so far. The interface \<^verbatim>\<open>Wait\<close>
  declares \<^verbatim>\<open>Promise<number>\<close> and the \<open>Continued\<close> path returns
  \<^verbatim>\<open>secondsSoFar || 0\<close>, but the three \<open>Proceeded\<close> paths end in a bare
  \<^verbatim>\<open>return;\<close>. With nothing to wait for, the first tick resolves with
  \<^verbatim>\<open>undefined\<close> instead of \<open>0\<close>; after an initial delay of 10 seconds the second
  tick resolves with \<^verbatim>\<open>undefined\<close> instead of \<open>10\<close>; and when the target job has
  completed, a tick called with 30 elapsed seconds resolves with \<^verbatim>\<open>undefined\<close>
  without any write to the force-continued output.
\<close>

theorem proceeded_returns_undefined:
  "wait cfg (\<lambda>k. api_none) 1 0 newWaiter None
     = Some (Inr None, \<lparr>attempt = 0, outputs = [(''force_continued'', '''')], slept = []\<rparr>) \<and>
   wait (cfg\<lparr>initialWaitSeconds := 10\<rparr>) (\<lambda>k. api_none) 2 0 newWaiter None
     = Some (Inr None,
             \<lparr>attempt = 0,
              outputs = [(''force_continued'', ''''), (''force_continued'', '''')],
              slept = [10]\<rparr>) \<and>
   wait (cfg\<lparr>jobToWaitFor := Some ''build''\<rparr>) (\<lambda>k. api7_done) 1 0 newWaiter (Some 30)
     = Some (Inr None, \<lparr>attempt = 0, outputs = [], slept = []\<rparr>)"
  by (simp add: numeral_eq_Suc model_defs Let_def)

text \<open>
  C4. With exponential backoff enabled and base interval \<open>b\<close>, the \<open>k\<close>-th waiting
  interval is to be \<open>b \<times> 2\<^sup>k\<^sup>-\<^sup>1\<close>. The flag is named
  \<^verbatim>\<open>exponentialBackoffRetries\<close>, but the factor the source computes is
  \<^verbatim>\<open>2 * this.attempt || 1\<close>, which grows linearly. With a base interval of one second
  and run 7 outstanding throughout, the waiter sleeps 1, 2, 4 and then 6 seconds, not 8:
  the abort-after threshold of 13 seconds is met exactly at the fifth tick.
\<close>

theorem backoff_intervals_are_linear:
  "wait (cfg\<lparr>pollIntervalSeconds := 1, exponentialBackoffRetries := True,
              abortAfterSeconds := Some 13\<rparr>) (\<lambda>k. api7) 5 0 newWaiter None
     = Some (Inl (AbortedAfterWaiting (Some 13)),
             \<lparr>attempt = 4, outputs = [(''force_continued'', '''')], slept = [1, 2, 4, 6]\<rparr>)"
  by (simp add: numeral_eq_Suc model_defs Let_def)

end
